theory Spec2Isabelle
  imports Main
begin

section \<open>Python values used by the feature encoder\<close>

text \<open>
  The exceptions the encoder can raise: \<open>ValueError\<close> with its message (the length
  validation, and a regression label that is not a number), \<open>KeyError\<close> with the missing
  key (label lookup, unsupported output mode) and \<open>IndexError\<close> (\<open>pop\<close> on an empty list,
  index 0 of an empty list).
\<close>

datatype error = ValueError string | KeyError string | IndexError

text \<open>
  The special-token parameters are \<open>None\<close> or a string; \<open>if tok:\<close> is false for \<open>None\<close>
  and for the empty string.
\<close>

definition truthy :: "string option \<Rightarrow> bool" where
  "truthy t = (case t of None \<Rightarrow> False | Some s \<Rightarrow> s \<noteq> [])"

text \<open>\<open>[x] * n\<close> is the empty list for \<open>n \<le> 0\<close>.\<close>

definition py_repeat :: "'a \<Rightarrow> int \<Rightarrow> 'a list" where
  "py_repeat x n = replicate (nat n) x"

text \<open>\<open>xs[:n]\<close>: a negative \<open>n\<close> counts from the end of the list.\<close>

definition py_prefix :: "'a list \<Rightarrow> int \<Rightarrow> 'a list" where
  "py_prefix xs n =
     (if 0 \<le> n then take (nat n) xs else take (nat (int (length xs) + n)) xs)"

section \<open>Data model\<close>

record example =
  guid :: string
  text_a :: string
  text_b :: "string option"
  label :: string

text \<open>
  The tokenizer is an external collaborator; the encoder only calls its two methods, which
  are parameters of the model.
\<close>

record tokenizer =
  text_to_tokens :: "string \<Rightarrow> string list"
  tokens_to_ids :: "string list \<Rightarrow> int list"

text \<open>The keyword parameters of \<open>convert_examples_to_features\<close>, with their defaults.\<close>

record token_params =
  bos_token :: "string option"
  eos_token :: "string option"
  pad_token :: string
  cls_token :: "string option"
  sep_token_extra :: "string option"
  cls_token_at_end :: bool
  cls_token_segment_id :: int
  pad_token_segment_id :: int
  pad_on_left :: bool
  mask_padding_with_zero :: bool
  sequence_a_segment_id :: int
  sequence_b_segment_id :: int

definition default_params :: token_params where
  "default_params =
     \<lparr> bos_token = None, eos_token = Some ''[SEP]'', pad_token = ''[PAD]'',
       cls_token = Some ''[CLS]'', sep_token_extra = None, cls_token_at_end = False,
       cls_token_segment_id = 0, pad_token_segment_id = 0, pad_on_left = False,
       mask_padding_with_zero = True, sequence_a_segment_id = 0,
       sequence_b_segment_id = 1 \<rparr>"

text \<open>
  A label id is a class index or the result of \<open>np.float32\<close>; the type \<open>'f\<close> of the latter
  and the conversion itself (\<open>None\<close> when it raises) are parameters.
\<close>

datatype 'f label_value = ClassIndex nat | Float32 'f

record 'f InputFeatures =
  input_ids :: "int list"
  input_mask :: "int list"
  segment_ids :: "int list"
  label_id :: "'f label_value"

section \<open>The encoder\<close>

subsection \<open>Label map\<close>

text \<open>\<open>{label: i for i, label in enumerate(label_list)}\<close>: a later entry overwrites.\<close>

definition label_map :: "string list \<Rightarrow> (string \<rightharpoonup> nat)" where
  "label_map label_list =
     fold (\<lambda>(i, l) m. m(l \<mapsto> i)) (enumerate 0 label_list) Map.empty"

subsection \<open>Pair truncation\<close>

text \<open>
  \<open>_truncate_seq_pair\<close> pops from its two arguments in place; the model returns the two
  lists as they are when the loop breaks. \<open>pop\<close> on an empty list raises \<open>IndexError\<close>.
\<close>

function truncate_seq_pair ::
  "string list \<Rightarrow> string list \<Rightarrow> int \<Rightarrow> error + (string list \<times> string list)" where
  "truncate_seq_pair tokens_a tokens_b max_length =
     (if int (length tokens_a + length tokens_b) \<le> max_length then Inr (tokens_a, tokens_b)
      else if length tokens_a > length tokens_b
        then truncate_seq_pair (butlast tokens_a) tokens_b max_length
      else if tokens_b = [] then Inl IndexError
      else truncate_seq_pair tokens_a (butlast tokens_b) max_length)"
  by pat_completeness auto
termination
  by (relation "measure (\<lambda>(a, b, m). length a + length b)") auto

text \<open>The number of \<open>pop\<close> calls the loop makes before it breaks or raises.\<close>

function truncate_seq_pair_pops :: "string list \<Rightarrow> string list \<Rightarrow> int \<Rightarrow> nat" where
  "truncate_seq_pair_pops tokens_a tokens_b max_length =
     (if int (length tokens_a + length tokens_b) \<le> max_length then 0
      else if length tokens_a > length tokens_b
        then Suc (truncate_seq_pair_pops (butlast tokens_a) tokens_b max_length)
      else if tokens_b = [] then 0
      else Suc (truncate_seq_pair_pops tokens_a (butlast tokens_b) max_length))"
  by pat_completeness auto
termination
  by (relation "measure (\<lambda>(a, b, m). length a + length b)") auto

subsection \<open>Steps of the loop body\<close>

text \<open>
  The count of reserved slots, in the branch for two texts (\<open>example.text_b\<close> is true) and
  in the branch for one.
\<close>

definition special_tokens_count :: "token_params \<Rightarrow> bool \<Rightarrow> int" where
  "special_tokens_count p two_texts =
     (if two_texts then
        (if truthy (eos_token p) then 2 else 0)
        + (if truthy (sep_token_extra p) then 1 else 0)
        + (if truthy (bos_token p) then 2 else 0)
        + (if truthy (cls_token p) then 1 else 0)
      else
        (if truthy (eos_token p) then 1 else 0)
        + (if truthy (sep_token_extra p) then 1 else 0)
        + (if truthy (bos_token p) then 1 else 0))"

text \<open>
  Tokenization and truncation. The second component is \<open>None\<close> when \<open>tokens_b\<close> stays
  \<open>None\<close>.
\<close>

definition truncate_tokens ::
  "tokenizer \<Rightarrow> token_params \<Rightarrow> int \<Rightarrow> example
     \<Rightarrow> error + (string list \<times> string list option)" where
  "truncate_tokens tk p max_seq_length ex =
     (let tokens_a = text_to_tokens tk (text_a ex) in
      if truthy (text_b ex) then
        (let tokens_b = text_to_tokens tk (the (text_b ex)) in
         case truncate_seq_pair tokens_a tokens_b
                (max_seq_length - special_tokens_count p True) of
           Inl e \<Rightarrow> Inl e
         | Inr (a, b) \<Rightarrow> Inr (a, Some b))
      else
        (let n = max_seq_length - special_tokens_count p False in
         Inr (if int (length tokens_a) > n then py_prefix tokens_a n else tokens_a, None)))"

text \<open>\<open>if tokens_b:\<close> is false for \<open>None\<close> and for the empty list.\<close>

definition nonempty_b :: "string list option \<Rightarrow> bool" where
  "nonempty_b tokens_b = (case tokens_b of None \<Rightarrow> False | Some b \<Rightarrow> b \<noteq> [])"

text \<open>The assembly of the token sequence and of the parallel segment ids.\<close>

definition add_special_tokens ::
  "token_params \<Rightarrow> string list \<Rightarrow> string list option \<Rightarrow> string list \<times> int list" where
  "add_special_tokens p tokens_a tokens_b =
     (let tokens = tokens_a;
          tokens = (if truthy (bos_token p) then [the (bos_token p)] @ tokens else tokens);
          tokens = (if truthy (eos_token p) then tokens @ [the (eos_token p)] else tokens);
          segment_ids = py_repeat (sequence_a_segment_id p) (int (length tokens));
          (tokens, segment_ids) =
            (if nonempty_b tokens_b \<and> truthy (sep_token_extra p)
             then (tokens @ [the (sep_token_extra p)],
                   segment_ids @ [sequence_a_segment_id p])
             else (tokens, segment_ids));
          (tokens, segment_ids) =
            (if nonempty_b tokens_b then
               (let (tokens, segment_ids) =
                      (if truthy (bos_token p)
                       then (tokens @ [the (bos_token p)],
                             segment_ids @ [sequence_b_segment_id p])
                       else (tokens, segment_ids));
                    tokens = tokens @ the tokens_b;
                    segment_ids = segment_ids
                      @ py_repeat (sequence_b_segment_id p) (int (length (the tokens_b)))
                in if truthy (eos_token p)
                   then (tokens @ [the (eos_token p)],
                         segment_ids @ [sequence_b_segment_id p])
                   else (tokens, segment_ids))
             else (tokens, segment_ids))
      in if truthy (cls_token p) then
           (if cls_token_at_end p
            then (tokens @ [the (cls_token p)], segment_ids @ [cls_token_segment_id p])
            else ([the (cls_token p)] @ tokens, [cls_token_segment_id p] @ segment_ids))
         else (tokens, segment_ids))"

text \<open>Conversion to ids, mask, padding and the three length checks.\<close>

definition pad_features ::
  "tokenizer \<Rightarrow> token_params \<Rightarrow> int \<Rightarrow> string list \<times> int list
     \<Rightarrow> error + (int list \<times> int list \<times> int list)" where
  "pad_features tk p max_seq_length ts =
     (let (tokens, segment_ids) = ts;
          input_ids = tokens_to_ids tk tokens;
          input_mask = py_repeat (if mask_padding_with_zero p then 1 else 0)
                         (int (length input_ids));
          padding_length = max_seq_length - int (length input_ids)
      in case tokens_to_ids tk [pad_token p] of
           [] \<Rightarrow> Inl IndexError
         | pad_token_id # _ \<Rightarrow>
            (let (input_ids, input_mask, segment_ids) =
                   (if pad_on_left p then
                      (py_repeat pad_token_id padding_length @ input_ids,
                       py_repeat (if mask_padding_with_zero p then 0 else 1) padding_length
                         @ input_mask,
                       py_repeat (pad_token_segment_id p) padding_length @ segment_ids)
                    else
                      (input_ids @ py_repeat pad_token_id padding_length,
                       input_mask
                         @ py_repeat (if mask_padding_with_zero p then 0 else 1)
                             padding_length,
                       segment_ids @ py_repeat (pad_token_segment_id p) padding_length))
             in if int (length input_ids) \<noteq> max_seq_length
                  then Inl (ValueError ''input_ids must be of length max_seq_length'')
                else if int (length input_mask) \<noteq> max_seq_length
                  then Inl (ValueError ''input_mask must be of length max_seq_length'')
                else if int (length segment_ids) \<noteq> max_seq_length
                  then Inl (ValueError ''segment_ids must be of length max_seq_length'')
                else Inr (input_ids, input_mask, segment_ids)))"

text \<open>Label resolution.\<close>

definition resolve_label ::
  "string list \<Rightarrow> string \<Rightarrow> (string \<Rightarrow> 'f option) \<Rightarrow> string \<Rightarrow> error + 'f label_value" where
  "resolve_label label_list output_mode np_float32 lab =
     (if output_mode = ''classification'' then
        (case label_map label_list lab of
           None \<Rightarrow> Inl (KeyError lab)
         | Some i \<Rightarrow> Inr (ClassIndex i))
      else if output_mode = ''regression'' then
        (case np_float32 lab of
           None \<Rightarrow> Inl (ValueError ''could not convert string to float'')
         | Some v \<Rightarrow> Inr (Float32 v))
      else Inl (KeyError output_mode))"

text \<open>Steps 1 to 8 for one example: everything before the label is resolved.\<close>

definition encode_sequences ::
  "tokenizer \<Rightarrow> token_params \<Rightarrow> int \<Rightarrow> example
     \<Rightarrow> error + (int list \<times> int list \<times> int list)" where
  "encode_sequences tk p max_seq_length ex =
     (case truncate_tokens tk p max_seq_length ex of
        Inl e \<Rightarrow> Inl e
      | Inr (tokens_a, tokens_b) \<Rightarrow>
          pad_features tk p max_seq_length (add_special_tokens p tokens_a tokens_b))"

text \<open>The loop body: one example to one feature record. The log lines are left out.\<close>

definition convert_example ::
  "string list \<Rightarrow> int \<Rightarrow> tokenizer \<Rightarrow> string \<Rightarrow> (string \<Rightarrow> 'f option) \<Rightarrow> token_params
     \<Rightarrow> example \<Rightarrow> error + 'f InputFeatures" where
  "convert_example label_list max_seq_length tk output_mode np_float32 p ex =
     (case encode_sequences tk p max_seq_length ex of
        Inl e \<Rightarrow> Inl e
      | Inr (ids, msk, segs) \<Rightarrow>
         (case resolve_label label_list output_mode np_float32 (label ex) of
            Inl e \<Rightarrow> Inl e
          | Inr l \<Rightarrow>
              Inr \<lparr> input_ids = ids, input_mask = msk, segment_ids = segs,
                    label_id = l \<rparr>))"

subsection \<open>The batch encoder\<close>

text \<open>
  The loop over the examples appends to \<open>features\<close>; an exception leaves the function and
  the list built so far is lost with it.
\<close>

fun convert_loop ::
  "string list \<Rightarrow> int \<Rightarrow> tokenizer \<Rightarrow> string \<Rightarrow> (string \<Rightarrow> 'f option) \<Rightarrow> token_params
     \<Rightarrow> example list \<Rightarrow> 'f InputFeatures list \<Rightarrow> error + 'f InputFeatures list" where
  "convert_loop label_list max_seq_length tk output_mode np_float32 p [] features =
     Inr features"
| "convert_loop label_list max_seq_length tk output_mode np_float32 p (ex # exs) features =
     (case convert_example label_list max_seq_length tk output_mode np_float32 p ex of
        Inl e \<Rightarrow> Inl e
      | Inr f \<Rightarrow>
          convert_loop label_list max_seq_length tk output_mode np_float32 p exs
            (features @ [f]))"

definition convert_examples_to_features ::
  "example list \<Rightarrow> string list \<Rightarrow> int \<Rightarrow> tokenizer \<Rightarrow> string \<Rightarrow> (string \<Rightarrow> 'f option)
     \<Rightarrow> token_params \<Rightarrow> error + 'f InputFeatures list" where
  "convert_examples_to_features examples label_list max_seq_length tk output_mode
       np_float32 p =
     convert_loop label_list max_seq_length tk output_mode np_float32 p examples []"

section \<open>Notions used to state the properties\<close>

text \<open>
  The lengths that the greedy trimming leaves, for sequences of lengths \<open>la\<close> and \<open>lb\<close> and
  a budget \<open>m\<close>: nothing is cut when both fit; otherwise the total is exactly \<open>m\<close>, a
  second sequence of at most \<open>m div 2\<close> tokens is kept whole, a first sequence of at most
  \<open>(m + 1) div 2\<close> tokens is kept whole, and two long sequences are cut to \<open>(m + 1) div 2\<close>
  and \<open>m div 2\<close> tokens (on a tie the second sequence loses the token).
\<close>

definition trunc_len_b :: "nat \<Rightarrow> nat \<Rightarrow> nat \<Rightarrow> nat" where
  "trunc_len_b la lb m = (if la + lb \<le> m then lb else min lb (max (m div 2) (m - la)))"

definition trunc_len_a :: "nat \<Rightarrow> nat \<Rightarrow> nat \<Rightarrow> nat" where
  "trunc_len_a la lb m = (if la + lb \<le> m then la else m - trunc_len_b la lb m)"

text \<open>
  The reserved-slot count as the specification words it: one slot per text for
  \<open>eos_token\<close> and for \<open>bos_token\<close>, one for \<open>sep_token_extra\<close> between two texts, one for
  \<open>cls_token\<close>.
\<close>

definition spec_special_tokens_count :: "token_params \<Rightarrow> bool \<Rightarrow> int" where
  "spec_special_tokens_count p two_texts =
     (if truthy (eos_token p) then (if two_texts then 2 else 1) else 0)
     + (if truthy (sep_token_extra p) \<and> two_texts then 1 else 0)
     + (if truthy (bos_token p) then (if two_texts then 2 else 1) else 0)
     + (if truthy (cls_token p) then 1 else 0)"

text \<open>
  The order of assembly as the specification words it, as a list of tokens paired with
  their segment ids. An optional token contributes one entry when it is set and none
  otherwise; \<open>with_b\<close> says whether the part for the second text is there.
\<close>

definition opt_token :: "string option \<Rightarrow> int \<Rightarrow> (string \<times> int) list" where
  "opt_token t s = (if truthy t then [(the t, s)] else [])"

definition assembly_order ::
  "token_params \<Rightarrow> string list \<Rightarrow> bool \<Rightarrow> string list \<Rightarrow> (string \<times> int) list" where
  "assembly_order p tokens_a with_b tokens_b =
     (if cls_token_at_end p then [] else opt_token (cls_token p) (cls_token_segment_id p))
     @ opt_token (bos_token p) (sequence_a_segment_id p)
     @ map (\<lambda>t. (t, sequence_a_segment_id p)) tokens_a
     @ opt_token (eos_token p) (sequence_a_segment_id p)
     @ (if with_b then
          opt_token (sep_token_extra p) (sequence_a_segment_id p)
          @ opt_token (bos_token p) (sequence_b_segment_id p)
          @ map (\<lambda>t. (t, sequence_b_segment_id p)) tokens_b
          @ opt_token (eos_token p) (sequence_b_segment_id p)
        else [])
     @ (if cls_token_at_end p then opt_token (cls_token p) (cls_token_segment_id p) else [])"

definition tokens_of_b :: "string list option \<Rightarrow> string list" where
  "tokens_of_b tokens_b = (case tokens_b of None \<Rightarrow> [] | Some b \<Rightarrow> b)"

text \<open>The mask values of a real token and of a padding position.\<close>

definition real_mask_value :: "token_params \<Rightarrow> int" where
  "real_mask_value p = (if mask_padding_with_zero p then 1 else 0)"

definition pad_mask_value :: "token_params \<Rightarrow> int" where
  "pad_mask_value p = (if mask_padding_with_zero p then 0 else 1)"

text \<open>
  The contract of \<open>tokens_to_ids\<close> that the encoder relies on: one id for each token.
\<close>

definition one_id_per_token :: "tokenizer \<Rightarrow> bool" where
  "one_id_per_token tk = (\<forall>ts. length (tokens_to_ids tk ts) = length ts)"

subsection \<open>A small tokenizer and examples for concrete runs\<close>

text \<open>
  One token per character. The ids of the three special tokens are those of the BERT
  vocabulary; any other token gets 1000 plus its length.
\<close>

definition token_id :: "string \<Rightarrow> int" where
  "token_id t =
     (if t = ''[PAD]'' then 0 else if t = ''[CLS]'' then 101
      else if t = ''[SEP]'' then 102 else 1000 + int (length t))"

definition char_tokenizer :: tokenizer where
  "char_tokenizer = \<lparr> text_to_tokens = map (\<lambda>c. [c]), tokens_to_ids = map token_id \<rparr>"

definition no_float :: "string \<Rightarrow> unit option" where
  "no_float s = None"

text \<open>The defaults with padding on the left and a segment id of its own for \<open>cls_token\<close>.\<close>

definition left_padded_params :: token_params where
  "left_padded_params = default_params\<lparr> pad_on_left := True, cls_token_segment_id := 2 \<rparr>"

definition single_example :: example where
  "single_example = \<lparr> guid = ''dev-0'', text_a = ''abcd'', text_b = None, label = ''pos'' \<rparr>"

definition short_example :: example where
  "short_example = \<lparr> guid = ''dev-1'', text_a = ''ab'', text_b = None, label = ''pos'' \<rparr>"

definition pair_example :: example where
  "pair_example = \<lparr> guid = ''dev-2'', text_a = ''a'', text_b = Some ''b'', label = ''pos'' \<rparr>"

definition unlabelled_example :: example where
  "unlabelled_example =
     \<lparr> guid = ''dev-3'', text_a = ''abcd'', text_b = None, label = ''maybe'' \<rparr>"

section \<open>Pair truncation\<close>

declare truncate_seq_pair.simps [simp del]
declare truncate_seq_pair_pops.simps [simp del]

lemma trunc_len_drop_a:
  "la > lb \<Longrightarrow> la + lb > m \<Longrightarrow>
     trunc_len_a (la - 1) lb m = trunc_len_a la lb m
   \<and> trunc_len_b (la - 1) lb m = trunc_len_b la lb m
   \<and> trunc_len_a la lb m \<le> la - 1"
  unfolding trunc_len_a_def trunc_len_b_def by (auto simp: min_def max_def)

lemma trunc_len_drop_b:
  "la \<le> lb \<Longrightarrow> la + lb > m \<Longrightarrow>
     trunc_len_a la (lb - 1) m = trunc_len_a la lb m
   \<and> trunc_len_b la (lb - 1) m = trunc_len_b la lb m
   \<and> trunc_len_b la lb m \<le> lb - 1"
  unfolding trunc_len_a_def trunc_len_b_def by (auto simp: min_def max_def)

lemma trunc_len_bounds:
  "trunc_len_a la lb m \<le> la \<and> trunc_len_b la lb m \<le> lb
   \<and> (la + lb \<le> m \<longrightarrow> trunc_len_a la lb m + trunc_len_b la lb m = la + lb)
   \<and> (m < la + lb \<longrightarrow> trunc_len_a la lb m + trunc_len_b la lb m = m)"
  unfolding trunc_len_a_def trunc_len_b_def by (auto simp: min_def max_def)

text \<open>With a budget that is not negative the loop returns, and this is what it returns.\<close>

lemma truncate_seq_pair_closed:
  "0 \<le> m \<Longrightarrow>
   truncate_seq_pair a b m =
     Inr (take (trunc_len_a (length a) (length b) (nat m)) a,
          take (trunc_len_b (length a) (length b) (nat m)) b)"
proof (induction a b m rule: truncate_seq_pair.induct)
  case (1 a b m)
  show ?case
  proof (cases "int (length a + length b) \<le> m")
    case True
    then have "length a + length b \<le> nat m" by linarith
    then show ?thesis using True
      by (subst truncate_seq_pair.simps) (simp add: trunc_len_a_def trunc_len_b_def)
  next
    case False
    then have gt: "length a + length b > nat m" using 1(3) by linarith
    show ?thesis
    proof (cases "length a > length b")
      case True
      have eq: "truncate_seq_pair a b m = truncate_seq_pair (butlast a) b m"
        using False True by (subst truncate_seq_pair.simps) simp
      have ih: "truncate_seq_pair (butlast a) b m =
          Inr (take (trunc_len_a (length (butlast a)) (length b) (nat m)) (butlast a),
               take (trunc_len_b (length (butlast a)) (length b) (nat m)) b)"
        by (rule 1(1)[OF False True 1(3)])
      have tk: "take (trunc_len_a (length a) (length b) (nat m)) (butlast a)
                 = take (trunc_len_a (length a) (length b) (nat m)) a"
        using trunc_len_drop_a[OF True gt] by (simp add: butlast_conv_take min_def)
      show ?thesis unfolding eq ih using trunc_len_drop_a[OF True gt] tk by simp
    next
      case shorter: False
      then have le: "length a \<le> length b" by simp
      have ne: "b \<noteq> []" using gt le by auto
      have eq: "truncate_seq_pair a b m = truncate_seq_pair a (butlast b) m"
        using False shorter ne by (subst truncate_seq_pair.simps) simp
      have ih: "truncate_seq_pair a (butlast b) m =
          Inr (take (trunc_len_a (length a) (length (butlast b)) (nat m)) a,
               take (trunc_len_b (length a) (length (butlast b)) (nat m)) (butlast b))"
        by (rule 1(2)[OF False shorter ne 1(3)])
      have tk: "take (trunc_len_b (length a) (length b) (nat m)) (butlast b)
                 = take (trunc_len_b (length a) (length b) (nat m)) b"
        using trunc_len_drop_b[OF le gt] by (simp add: butlast_conv_take min_def)
      show ?thesis unfolding eq ih using trunc_len_drop_b[OF le gt] tk by simp
    qed
  qed
qed

text \<open>With a negative budget the loop empties both lists and then pops once more.\<close>

lemma truncate_seq_pair_negative:
  "m < 0 \<Longrightarrow> truncate_seq_pair a b m = Inl IndexError"
proof (induction a b m rule: truncate_seq_pair.induct)
  case (1 a b m)
  show ?case using 1 by (subst truncate_seq_pair.simps) auto
qed

lemma truncate_seq_pair_pops_fit:
  "0 \<le> m \<Longrightarrow> truncate_seq_pair_pops a b m = length a + length b - nat m"
proof (induction a b m rule: truncate_seq_pair_pops.induct)
  case (1 a b m)
  show ?case using 1 by (subst truncate_seq_pair_pops.simps) (auto simp: not_le)
qed

lemma truncate_seq_pair_pops_negative:
  "m < 0 \<Longrightarrow> truncate_seq_pair_pops a b m = length a + length b"
proof (induction a b m rule: truncate_seq_pair_pops.induct)
  case (1 a b m)
  show ?case using 1 by (subst truncate_seq_pair_pops.simps) (auto simp: not_le)
qed

text \<open>
  C3 (amended). Whatever the two token sequences, and for every budget that is not
  negative: the truncation step stops with both sequences as they are when their total
  length is within the budget; otherwise it goes on without the last token of the first
  sequence when that one is strictly longer, and without the last token of the second
  sequence on a tie or when the second is longer. It returns; each returned sequence is a
  prefix of its input, the total length is within the budget, and the lengths are those of
  this greedy trimming (\<open>trunc_len_a\<close>, \<open>trunc_len_b\<close>). For sequences of 10 and 3 tokens
  and a budget of 8, the second sequence is unchanged and the first is cut to 5 tokens.
\<close>

theorem truncate_seq_pair_greedy:
  assumes "0 \<le> m"
  shows "(int (length a + length b) \<le> m \<longrightarrow> truncate_seq_pair a b m = Inr (a, b))
   \<and> (m < int (length a + length b) \<and> length b < length a \<longrightarrow>
        truncate_seq_pair a b m = truncate_seq_pair (butlast a) b m)
   \<and> (m < int (length a + length b) \<and> length a \<le> length b \<longrightarrow>
        truncate_seq_pair a b m = truncate_seq_pair a (butlast b) m)
   \<and> (\<exists>a' b'. truncate_seq_pair a b m = Inr (a', b')
        \<and> a' = take (length a') a \<and> b' = take (length b') b
        \<and> int (length a' + length b') \<le> m
        \<and> length a' = trunc_len_a (length a) (length b) (nat m)
        \<and> length b' = trunc_len_b (length a) (length b) (nat m))
   \<and> (length a = 10 \<and> length b = 3 \<and> m = 8 \<longrightarrow>
        truncate_seq_pair a b m = Inr (take 5 a, b))"
proof -
  let ?la = "trunc_len_a (length a) (length b) (nat m)"
  let ?lb = "trunc_len_b (length a) (length b) (nat m)"
  have stop: "int (length a + length b) \<le> m \<longrightarrow> truncate_seq_pair a b m = Inr (a, b)"
    by (subst truncate_seq_pair.simps) simp
  have drop_a: "m < int (length a + length b) \<and> length b < length a \<longrightarrow>
        truncate_seq_pair a b m = truncate_seq_pair (butlast a) b m"
    by (subst truncate_seq_pair.simps) simp
  have drop_b: "m < int (length a + length b) \<and> length a \<le> length b \<longrightarrow>
        truncate_seq_pair a b m = truncate_seq_pair a (butlast b) m"
  proof
    assume h: "m < int (length a + length b) \<and> length a \<le> length b"
    then have "0 < length a + length b" using assms by linarith
    then have "b \<noteq> []" using h by auto
    then show "truncate_seq_pair a b m = truncate_seq_pair a (butlast b) m"
      using h by (subst truncate_seq_pair.simps) simp
  qed
  have res: "truncate_seq_pair a b m = Inr (take ?la a, take ?lb b)"
    by (rule truncate_seq_pair_closed[OF assms])
  have bounds: "?la \<le> length a" "?lb \<le> length b"
    using trunc_len_bounds[of "length a" "length b" "nat m"] by simp_all
  have "?la + ?lb \<le> nat m"
    using trunc_len_bounds[of "length a" "length b" "nat m"]
    by (cases "length a + length b \<le> nat m") simp_all
  then have total: "int (?la + ?lb) \<le> m"
    using assms by linarith
  have lens: "length (take ?la a) = ?la" "length (take ?lb b) = ?lb"
    using bounds by simp_all
  have result: "\<exists>a' b'. truncate_seq_pair a b m = Inr (a', b')
        \<and> a' = take (length a') a \<and> b' = take (length b') b
        \<and> int (length a' + length b') \<le> m
        \<and> length a' = ?la \<and> length b' = ?lb"
  proof (intro exI conjI)
    show "truncate_seq_pair a b m = Inr (take ?la a, take ?lb b)" by (rule res)
    show "take ?la a = take (length (take ?la a)) a" unfolding lens ..
    show "take ?lb b = take (length (take ?lb b)) b" unfolding lens ..
    show "int (length (take ?la a) + length (take ?lb b)) \<le> m"
      unfolding lens by (rule total)
    show "length (take ?la a) = ?la" by (rule lens(1))
    show "length (take ?lb b) = ?lb" by (rule lens(2))
  qed
  have particular: "length a = 10 \<and> length b = 3 \<and> m = 8 \<longrightarrow>
        truncate_seq_pair a b m = Inr (take 5 a, b)"
    using truncate_seq_pair_closed[of 8 a b]
    by (auto simp: trunc_len_a_def trunc_len_b_def)
  from stop drop_a drop_b result particular show ?thesis by blast
qed

theorem truncate_seq_pair_greedy_witness:
  "(0::int) \<le> 8
   \<and> length (replicate 10 ''x'') = 10 \<and> length (replicate 3 ''y'') = 3
   \<and> truncate_seq_pair (replicate 10 ''x'') (replicate 3 ''y'') 8
       = Inr (replicate 5 ''x'', replicate 3 ''y'')
   \<and> replicate 5 ''x'' = take (length (replicate 5 ''x'')) (replicate 10 ''x'')
   \<and> int (length (replicate 5 ''x'') + length (replicate 3 ''y'')) \<le> 8"
proof -
  have m: "(0::int) \<le> 8" by simp
  have la: "length (replicate 10 ''x'') = 10" and lb: "length (replicate 3 ''y'') = 3"
    by simp_all
  have "truncate_seq_pair (replicate 10 ''x'') (replicate 3 ''y'') 8
          = Inr (take 5 (replicate 10 ''x''), replicate 3 ''y'')"
    using truncate_seq_pair_greedy[OF m, of "replicate 10 ''x''" "replicate 3 ''y''"] la lb
    by blast
  then show ?thesis by simp
qed

text \<open>
  C3 as stated fails: the claim is made for every budget, and with a negative budget the
  step never gets within it. With one token on each side and the budget \<open>-1\<close> it takes
  the token of the second sequence (a tie), then the token of the first, and the next
  \<open>pop\<close>, on the empty second sequence, raises \<open>IndexError\<close>.
\<close>

theorem truncate_seq_pair_negative_budget_counterexample:
  "truncate_seq_pair [''x''] [''y''] (-1) = Inl IndexError"
  by (simp add: truncate_seq_pair.simps)

text \<open>
  C9. For a budget that is not negative the loop terminates and returns, after exactly
  \<open>max 0 (len a + len b - budget)\<close> removals, with a total length within the budget. For a
  negative budget it removes every token of both sequences and then raises \<open>IndexError\<close>.
\<close>

theorem truncate_seq_pair_terminates:
  "(0 \<le> m \<longrightarrow>
      (\<exists>a' b'. truncate_seq_pair a b m = Inr (a', b')
         \<and> int (length a' + length b') \<le> m
         \<and> length a' + length b' + truncate_seq_pair_pops a b m = length a + length b)
      \<and> int (truncate_seq_pair_pops a b m) = max 0 (int (length a + length b) - m))
   \<and> (m < 0 \<longrightarrow>
        truncate_seq_pair a b m = Inl IndexError
      \<and> truncate_seq_pair_pops a b m = length a + length b)"
proof (cases "0 \<le> m")
  case True
  let ?la = "trunc_len_a (length a) (length b) (nat m)"
  let ?lb = "trunc_len_b (length a) (length b) (nat m)"
  have res: "truncate_seq_pair a b m = Inr (take ?la a, take ?lb b)"
    by (rule truncate_seq_pair_closed[OF True])
  have pops: "truncate_seq_pair_pops a b m = length a + length b - nat m"
    by (rule truncate_seq_pair_pops_fit[OF True])
  have bounds: "?la \<le> length a" "?lb \<le> length b"
    using trunc_len_bounds[of "length a" "length b" "nat m"] by simp_all
  have sum: "?la + ?lb = min (length a + length b) (nat m)"
    using trunc_len_bounds[of "length a" "length b" "nat m"] by (auto simp: min_def)
  have "length (take ?la a) = ?la" "length (take ?lb b) = ?lb"
    using bounds by simp_all
  then have len:
    "length (take ?la a) + length (take ?lb b) = min (length a + length b) (nat m)"
    using sum by simp
  have "int (length (take ?la a) + length (take ?lb b)) \<le> m"
    unfolding len using True by linarith
  moreover have "length (take ?la a) + length (take ?lb b) + truncate_seq_pair_pops a b m
      = length a + length b"
    unfolding len pops by (simp add: min_def)
  moreover have "int (truncate_seq_pair_pops a b m) = max 0 (int (length a + length b) - m)"
    unfolding pops using True by linarith
  ultimately show ?thesis using res True by simp
next
  case False
  then show ?thesis
    by (simp add: truncate_seq_pair_negative truncate_seq_pair_pops_negative)
qed

theorem truncate_seq_pair_terminates_witness:
  "(0::int) \<le> 8
   \<and> truncate_seq_pair_pops (replicate 10 ''x'') (replicate 3 ''y'') 8 = 5
   \<and> (-1::int) < 0
   \<and> truncate_seq_pair [''x''] [''y''] (-1) = Inl IndexError
   \<and> truncate_seq_pair_pops [''x''] [''y''] (-1) = 2"
  using truncate_seq_pair_terminates[of 8 "replicate 10 ''x''" "replicate 3 ''y''"]
        truncate_seq_pair_terminates[of "-1" "[''x'']" "[''y'']"]
  by simp

section \<open>Assembly, padding and validation\<close>

text \<open>
  The equations that evaluate the encoder on a concrete input.
\<close>

lemmas run_defs =
  truncate_tokens_def add_special_tokens_def pad_features_def encode_sequences_def
  convert_example_def convert_examples_to_features_def resolve_label_def label_map_def
  special_tokens_count_def truthy_def nonempty_b_def py_repeat_def py_prefix_def
  char_tokenizer_def token_id_def default_params_def no_float_def Let_def enumerate_eq_zip
  numeral_eq_Suc
  single_example_def short_example_def pair_example_def unlabelled_example_def
  left_padded_params_def

lemma map_const_replicate: "map (\<lambda>t. c) xs = replicate (length xs) c"
  by (induction xs) auto

lemma add_special_tokens_order:
  "add_special_tokens p a b =
     (map fst (assembly_order p a (nonempty_b b) (tokens_of_b b)),
      map snd (assembly_order p a (nonempty_b b) (tokens_of_b b)))"
  by (cases b)
     (simp_all add: add_special_tokens_def assembly_order_def opt_token_def py_repeat_def
        Let_def nonempty_b_def tokens_of_b_def comp_def map_const_replicate
        replicate_app_Cons_same)

lemma add_special_tokens_length:
  "add_special_tokens p a b = (tokens, segs) \<Longrightarrow> length segs = length tokens"
  by (auto simp: add_special_tokens_order)

lemma pad_features_fits:
  assumes "one_id_per_token tk" and "length segs = length tokens" and "int (length tokens) \<le> L"
  shows "pad_features tk p L (tokens, segs) =
     Inr (if pad_on_left p then
            (replicate (nat L - length tokens) (hd (tokens_to_ids tk [pad_token p]))
               @ tokens_to_ids tk tokens,
             replicate (nat L - length tokens) (pad_mask_value p)
               @ replicate (length tokens) (real_mask_value p),
             replicate (nat L - length tokens) (pad_token_segment_id p) @ segs)
          else
            (tokens_to_ids tk tokens
               @ replicate (nat L - length tokens) (hd (tokens_to_ids tk [pad_token p])),
             replicate (length tokens) (real_mask_value p)
               @ replicate (nat L - length tokens) (pad_mask_value p),
             segs @ replicate (nat L - length tokens) (pad_token_segment_id p)))"
proof -
  have len: "length (tokens_to_ids tk tokens) = length tokens"
    using assms(1) by (simp add: one_id_per_token_def)
  have "length (tokens_to_ids tk [pad_token p]) = 1"
    using assms(1) by (simp add: one_id_per_token_def)
  then obtain pid where pid: "tokens_to_ids tk [pad_token p] = [pid]"
    by (cases "tokens_to_ids tk [pad_token p]") auto
  have k: "nat (L - int (length tokens)) = nat L - length tokens" by linarith
  have fit: "int (length tokens) + int (nat L - length tokens) = L"
    using assms(3) by linarith
  show ?thesis
    using assms(2) fit
    by (simp add: pad_features_def Let_def py_repeat_def len pid k
          real_mask_value_def pad_mask_value_def)
qed

lemma pad_features_too_long:
  assumes "one_id_per_token tk" and "int (length tokens) > L"
  shows "pad_features tk p L (tokens, segs) =
     Inl (ValueError ''input_ids must be of length max_seq_length'')"
proof -
  have len: "length (tokens_to_ids tk tokens) = length tokens"
    using assms(1) by (simp add: one_id_per_token_def)
  have "length (tokens_to_ids tk [pad_token p]) = 1"
    using assms(1) by (simp add: one_id_per_token_def)
  then obtain pid where pid: "tokens_to_ids tk [pad_token p] = [pid]"
    by (cases "tokens_to_ids tk [pad_token p]") auto
  have k: "nat (L - int (length tokens)) = 0" using assms(2) by linarith
  show ?thesis
    using assms(2)
    by (simp add: pad_features_def Let_def py_repeat_def len pid k)
qed

lemma one_id_char_tokenizer: "one_id_per_token char_tokenizer"
  by (simp add: one_id_per_token_def char_tokenizer_def)

lemma real_pad_differ: "real_mask_value p \<noteq> pad_mask_value p"
  by (simp add: real_mask_value_def pad_mask_value_def)

lemma cls_token_ends:
  assumes "truthy (cls_token p)" and "add_special_tokens p a b = (tokens, segs)"
  shows "tokens \<noteq> [] \<and> segs \<noteq> []
       \<and> (if cls_token_at_end p
          then last tokens = the (cls_token p) \<and> last segs = cls_token_segment_id p
          else hd tokens = the (cls_token p) \<and> hd segs = cls_token_segment_id p)"
  using assms unfolding add_special_tokens_order
  by (auto simp: assembly_order_def opt_token_def)

lemma encode_sequences_Inr:
  assumes "one_id_per_token tk"
      and "truncate_tokens tk p L ex = Inr (a, b)"
      and "add_special_tokens p a b = (tokens, segs)"
      and "encode_sequences tk p L ex = Inr r"
  shows "int (length tokens) \<le> L"
proof (rule ccontr)
  assume "\<not> int (length tokens) \<le> L"
  then have "int (length tokens) > L" by simp
  from pad_features_too_long[OF assms(1) this, of p segs] assms(2,3,4)
  show False by (simp add: encode_sequences_def)
qed

section \<open>Reserved slots and the length of the result\<close>

text \<open>
  C2. The reserved-slot count of the code agrees with the count of the specification when
  the example has two texts. With one text the code also reserves a slot for
  \<open>sep_token_extra\<close>, which it never inserts there, and reserves none for \<open>cls_token\<close>,
  which it does insert: with the default parameters it reserves 1 slot where the
  specification counts 2.
\<close>

theorem reserved_count_single_text:
  "special_tokens_count p True = spec_special_tokens_count p True
   \<and> special_tokens_count p False
       = spec_special_tokens_count p False
         + (if truthy (sep_token_extra p) then 1 else 0)
         - (if truthy (cls_token p) then 1 else 0)
   \<and> special_tokens_count default_params False = 1
   \<and> spec_special_tokens_count default_params False = 2"
  by (simp add: special_tokens_count_def spec_special_tokens_count_def default_params_def
        truthy_def)

text \<open>
  C1. A run in which the length validation fails: the default parameters, a maximal length
  of 4 and one text of four tokens. The text is cut to 3 tokens, \<open>[SEP]\<close> and \<open>[CLS]\<close> make
  5, and the encoder raises \<open>ValueError\<close>.
\<close>

theorem single_text_length_violation:
  "add_special_tokens default_params [''a'', ''b'', ''c''] None
     = ([''[CLS]'', ''a'', ''b'', ''c'', ''[SEP]''], [0, 0, 0, 0, 0])
   \<and> encode_sequences char_tokenizer default_params 4 single_example
     = Inl (ValueError ''input_ids must be of length max_seq_length'')
   \<and> convert_examples_to_features [single_example] [''neg'', ''pos''] 4 char_tokenizer
       ''classification'' no_float default_params
     = Inl (ValueError ''input_ids must be of length max_seq_length'')"
  by (simp add: run_defs)

text \<open>
  What does hold of the lengths. A record that is emitted has the three sequences of length
  \<open>L\<close>, since the validation lets no other through.
\<close>

lemma assembled_length:
  assumes "add_special_tokens p a b = (tokens, segs)"
  shows "int (length tokens) =
      (if truthy (cls_token p) then 1 else 0) + (if truthy (bos_token p) then 1 else 0)
    + int (length a) + (if truthy (eos_token p) then 1 else 0)
    + (if nonempty_b b then
         (if truthy (sep_token_extra p) then 1 else 0) + (if truthy (bos_token p) then 1 else 0)
         + int (length (tokens_of_b b)) + (if truthy (eos_token p) then 1 else 0)
       else 0)"
proof -
  have "tokens = map fst (assembly_order p a (nonempty_b b) (tokens_of_b b))"
    using assms unfolding add_special_tokens_order by simp
  then show ?thesis
    by (simp add: assembly_order_def opt_token_def)
qed

lemma pad_features_lengths:
  assumes "pad_features tk p L ts = Inr (ids, msk, segs)"
  shows "int (length ids) = L \<and> int (length msk) = L \<and> int (length segs) = L"
proof (cases "tokens_to_ids tk [pad_token p]")
  case Nil
  then show ?thesis using assms by (simp add: pad_features_def Let_def split: prod.splits)
next
  case (Cons pid rest)
  obtain tokens segs0 where ts: "ts = (tokens, segs0)" by (cases ts)
  show ?thesis
  proof (cases "pad_on_left p")
    case True
    then show ?thesis using assms unfolding ts pad_features_def Let_def Cons
      by (auto split: if_splits)
  next
    case False
    then show ?thesis using assms unfolding ts pad_features_def Let_def Cons
      by (auto split: if_splits)
  qed
qed

lemma emitted_lengths:
  assumes "convert_example label_list L tk output_mode np_float32 p ex = Inr f"
  shows "int (length (input_ids f)) = L \<and> int (length (input_mask f)) = L
       \<and> int (length (segment_ids f)) = L"
proof -
  from assms obtain ids msk segs where
    enc: "encode_sequences tk p L ex = Inr (ids, msk, segs)"
    and f: "input_ids f = ids" "input_mask f = msk" "segment_ids f = segs"
    by (auto simp: convert_example_def split: sum.splits)
  from enc obtain a b where
    "pad_features tk p L (add_special_tokens p a b) = Inr (ids, msk, segs)"
    by (auto simp: encode_sequences_def split: sum.splits)
  from pad_features_lengths[OF this] f show ?thesis by simp
qed

text \<open>
  With two texts and an \<open>L\<close> that holds the reserved slots, steps 1 to 8 succeed.
\<close>

lemma two_texts_fit:
  assumes "one_id_per_token tk" and "truthy (text_b ex)"
      and "special_tokens_count p True \<le> L"
  shows "\<exists>r. encode_sequences tk p L ex = Inr r"
proof -
  let ?ta = "text_to_tokens tk (text_a ex)"
  let ?tb = "text_to_tokens tk (the (text_b ex))"
  let ?m = "L - special_tokens_count p True"
  let ?a = "take (trunc_len_a (length ?ta) (length ?tb) (nat ?m)) ?ta"
  let ?b = "take (trunc_len_b (length ?ta) (length ?tb) (nat ?m)) ?tb"
  define c :: int where "c = (if truthy (cls_token p) then 1 else 0)"
  define bo :: int where "bo = (if truthy (bos_token p) then 1 else 0)"
  define e :: int where "e = (if truthy (eos_token p) then 1 else 0)"
  define s :: int where "s = (if truthy (sep_token_extra p) then 1 else 0)"
  have rng: "0 \<le> c" "0 \<le> bo" "0 \<le> e" "0 \<le> s"
    by (simp_all add: c_def bo_def e_def s_def)
  have cnt: "special_tokens_count p True = 2 * e + s + 2 * bo + c"
    by (simp add: special_tokens_count_def c_def bo_def e_def s_def)
  have m: "0 \<le> ?m" using assms(3) by simp
  have tr: "truncate_tokens tk p L ex = Inr (?a, Some ?b)"
    using assms(2) truncate_seq_pair_closed[OF m, of ?ta ?tb]
    by (simp add: truncate_tokens_def Let_def)
  have "length ?a + length ?b \<le> nat ?m"
    using trunc_len_bounds[of "length ?ta" "length ?tb" "nat ?m"]
    by (cases "length ?ta + length ?tb \<le> nat ?m") (simp_all add: min_def)
  then have bound: "int (length ?a) + int (length ?b) \<le> ?m" using m by linarith
  obtain tokens segs where as: "add_special_tokens p ?a (Some ?b) = (tokens, segs)"
    by (cases "add_special_tokens p ?a (Some ?b)") auto
  have len: "int (length tokens) =
      c + bo + int (length ?a) + e
      + (if nonempty_b (Some ?b) then s + bo + int (length ?b) + e else 0)"
    unfolding assembled_length[OF as] c_def bo_def e_def s_def tokens_of_b_def by simp
  have "int (length tokens) \<le> L"
  proof (cases "nonempty_b (Some ?b)")
    case True
    then show ?thesis using len bound cnt by simp
  next
    case False
    then show ?thesis using len bound cnt rng by simp
  qed
  from pad_features_fits[OF assms(1) add_special_tokens_length[OF as] this, of p]
  show ?thesis by (simp add: encode_sequences_def tr as)
qed

text \<open>
  With one text and an \<open>L\<close> that holds the reserved slots, steps 1 to 8 succeed when
  \<open>cls_token\<close> is not set or \<open>sep_token_extra\<close> is set (its unused slot then pays for the
  classification token).
\<close>

lemma one_text_tokens:
  assumes "\<not> truthy (text_b ex)" and "special_tokens_count p False \<le> L"
  shows "\<exists>a. truncate_tokens tk p L ex = Inr (a, None)
           \<and> int (length a)
               = min (int (length (text_to_tokens tk (text_a ex))))
                     (L - special_tokens_count p False)"
  using assms by (auto simp: truncate_tokens_def Let_def py_prefix_def min_def)

lemma one_text_length:
  assumes "add_special_tokens p a None = (tokens, segs)"
  shows "int (length tokens) + (if truthy (sep_token_extra p) then 1 else 0)
           = int (length a) + special_tokens_count p False
             + (if truthy (cls_token p) then 1 else 0)"
proof -
  define c :: int where "c = (if truthy (cls_token p) then 1 else 0)"
  define bo :: int where "bo = (if truthy (bos_token p) then 1 else 0)"
  define e :: int where "e = (if truthy (eos_token p) then 1 else 0)"
  define s :: int where "s = (if truthy (sep_token_extra p) then 1 else 0)"
  have cnt: "special_tokens_count p False = e + s + bo"
    by (simp add: special_tokens_count_def c_def bo_def e_def s_def)
  have len: "int (length tokens) = c + bo + int (length a) + e"
    unfolding assembled_length[OF assms] c_def bo_def e_def
    by (simp add: nonempty_b_def)
  show ?thesis
    unfolding c_def[symmetric] s_def[symmetric] using cnt len by simp
qed

lemma one_text_fit:
  assumes "one_id_per_token tk" and "\<not> truthy (text_b ex)"
      and "special_tokens_count p False \<le> L"
      and "truthy (cls_token p) \<longrightarrow> truthy (sep_token_extra p)"
  shows "\<exists>r. encode_sequences tk p L ex = Inr r"
proof -
  from one_text_tokens[OF assms(2) assms(3)] obtain a where
    tr: "truncate_tokens tk p L ex = Inr (a, None)"
    and la: "int (length a) = min (int (length (text_to_tokens tk (text_a ex))))
                                   (L - special_tokens_count p False)"
    by blast
  obtain tokens segs where as: "add_special_tokens p a None = (tokens, segs)"
    by (cases "add_special_tokens p a None") auto
  have "int (length tokens) \<le> L"
    using one_text_length[OF as] la assms(4) by (simp split: if_splits)
  from pad_features_fits[OF assms(1) add_special_tokens_length[OF as] this, of p]
  show ?thesis by (simp add: encode_sequences_def tr as)
qed

text \<open>
  Otherwise every single text with at least \<open>L\<close> minus the reserved slots tokens fails the
  length validation.
\<close>

lemma one_text_overflow:
  assumes "one_id_per_token tk" and "\<not> truthy (text_b ex)"
      and "special_tokens_count p False \<le> L"
      and "truthy (cls_token p)" and "\<not> truthy (sep_token_extra p)"
      and "L - special_tokens_count p False \<le> int (length (text_to_tokens tk (text_a ex)))"
  shows "encode_sequences tk p L ex
           = Inl (ValueError ''input_ids must be of length max_seq_length'')"
proof -
  from one_text_tokens[OF assms(2) assms(3)] obtain a where
    tr: "truncate_tokens tk p L ex = Inr (a, None)"
    and la: "int (length a) = min (int (length (text_to_tokens tk (text_a ex))))
                                   (L - special_tokens_count p False)"
    by blast
  obtain tokens segs where as: "add_special_tokens p a None = (tokens, segs)"
    by (cases "add_special_tokens p a None") auto
  have "int (length tokens) > L"
    using one_text_length[OF as] la assms(4) assms(5) assms(6) by simp
  from pad_features_too_long[OF assms(1) this, of p segs]
  show ?thesis by (simp add: encode_sequences_def tr as)
qed

section \<open>Order of assembly and placement of the classification token\<close>

text \<open>
  C5 (amended). The token sequence and the parallel segment ids before padding are, in this
  order: optional \<open>bos_token\<close>, \<open>tokens_a\<close>, optional \<open>eos_token\<close>, all with
  \<open>sequence_a_segment_id\<close>; then, exactly when \<open>tokens_b\<close> is not empty after truncation
  (which needs a second text), optional \<open>sep_token_extra\<close> (\<open>sequence_a_segment_id\<close>),
  optional \<open>bos_token\<close>, \<open>tokens_b\<close>, optional \<open>eos_token\<close> (all three with
  \<open>sequence_b_segment_id\<close>); and \<open>cls_token\<close> with \<open>cls_token_segment_id\<close> at the very front,
  or at the very end when \<open>cls_token_at_end\<close> is set.
\<close>

theorem assembly_order_of_tokens:
  assumes "truncate_tokens tk p L ex = Inr (a, b)"
  shows "add_special_tokens p a b =
           (map fst (assembly_order p a (nonempty_b b) (tokens_of_b b)),
            map snd (assembly_order p a (nonempty_b b) (tokens_of_b b)))
       \<and> (nonempty_b b \<longrightarrow> truthy (text_b ex))
       \<and> (\<not> truthy (text_b ex) \<longrightarrow> b = None)"
  using assms add_special_tokens_order[of p a b]
  by (auto simp: truncate_tokens_def Let_def nonempty_b_def split: if_splits sum.splits)

theorem assembly_order_of_tokens_witness:
  "truncate_tokens char_tokenizer default_params 8 (pair_example\<lparr>text_b := Some ''bc''\<rparr>)
     = Inr ([''a''], Some [''b'', ''c''])
   \<and> nonempty_b (Some [''b'', ''c'']) \<and> truthy (text_b (pair_example\<lparr>text_b := Some ''bc''\<rparr>))
   \<and> add_special_tokens default_params [''a''] (Some [''b'', ''c''])
       = ([''[CLS]'', ''a'', ''[SEP]'', ''b'', ''c'', ''[SEP]''], [0, 0, 0, 1, 1, 1])
   \<and> truncate_tokens char_tokenizer default_params 8 short_example = Inr ([''a'', ''b''], None)
   \<and> \<not> truthy (text_b short_example)"
proof -
  have h: "truncate_tokens char_tokenizer default_params 8 (pair_example\<lparr>text_b := Some ''bc''\<rparr>)
     = Inr ([''a''], Some [''b'', ''c''])"
    by (simp add: run_defs truncate_seq_pair.simps)
  have h': "truncate_tokens char_tokenizer default_params 8 short_example
     = Inr ([''a'', ''b''], None)"
    by (simp add: run_defs)
  have t: "\<not> truthy (text_b short_example)" by (simp add: run_defs)
  show ?thesis
    using assembly_order_of_tokens[OF h] assembly_order_of_tokens[OF h'] h h' t
    by (simp add: assembly_order_def opt_token_def default_params_def truthy_def
          nonempty_b_def tokens_of_b_def)
qed

text \<open>
  C5 as stated fails: with two texts of one token each and a maximal length of 4, the
  truncation empties \<open>tokens_b\<close>, and the encoder leaves out the whole part for the second
  text, its \<open>eos_token\<close> included.
\<close>

theorem assembly_order_counterexample:
  "truthy (text_b pair_example)
   \<and> truncate_tokens char_tokenizer default_params 4 pair_example = Inr ([''a''], Some [])
   \<and> add_special_tokens default_params [''a''] (Some [])
       = ([''[CLS]'', ''a'', ''[SEP]''], [0, 0, 0])
   \<and> (map fst (assembly_order default_params [''a''] True []),
       map snd (assembly_order default_params [''a''] True []))
       = ([''[CLS]'', ''a'', ''[SEP]'', ''[SEP]''], [0, 0, 0, 1])
   \<and> add_special_tokens default_params [''a''] (Some [])
       \<noteq> (map fst (assembly_order default_params [''a''] True []),
           map snd (assembly_order default_params [''a''] True []))"
  by (simp add: run_defs truncate_seq_pair.simps assembly_order_def opt_token_def)

text \<open>
  C4 (amended). When \<open>cls_token\<close> is set and an example is encoded, the token sequence
  before padding is not empty and its first entry (its last entry when \<open>cls_token_at_end\<close>
  is set) is the classification token, with \<open>cls_token_segment_id\<close> at the same place of the
  segment ids. In the feature record the entries that are not padding are those from
  \<open>off\<close> to \<open>off + n\<close>, where \<open>n\<close> is the number of assembled tokens and \<open>off\<close> is the
  amount of padding when \<open>pad_on_left\<close> is set and 0 otherwise; the segment id of the
  classification token is at index \<open>off\<close>, or at index \<open>off + n - 1\<close> when
  \<open>cls_token_at_end\<close> is set.
\<close>

theorem cls_token_placement:
  assumes "truthy (cls_token p)"
      and "one_id_per_token tk"
      and "truncate_tokens tk p L ex = Inr (a, b)"
      and "add_special_tokens p a b = (tokens, segs)"
      and "convert_example label_list L tk output_mode np_float32 p ex = Inr f"
  shows "tokens \<noteq> [] \<and> length segs = length tokens \<and> int (length tokens) \<le> L
       \<and> (if cls_token_at_end p
          then last tokens = the (cls_token p) \<and> last segs = cls_token_segment_id p
          else hd tokens = the (cls_token p) \<and> hd segs = cls_token_segment_id p)
       \<and> (let off = (if pad_on_left p then nat L - length tokens else 0) in
            take (length tokens) (drop off (input_ids f)) = tokens_to_ids tk tokens
          \<and> take (length tokens) (drop off (segment_ids f)) = segs
          \<and> input_mask f = replicate off (pad_mask_value p)
                @ replicate (length tokens) (real_mask_value p)
                @ replicate (nat L - length tokens - off) (pad_mask_value p)
          \<and> segment_ids f ! (if cls_token_at_end p then off + length tokens - 1 else off)
              = cls_token_segment_id p)"
proof -
  have seglen: "length segs = length tokens"
    by (rule add_special_tokens_length[OF assms(4)])
  note ends = cls_token_ends[OF assms(1) assms(4)]
  from assms(5) obtain r where r: "encode_sequences tk p L ex = Inr r"
    by (cases "encode_sequences tk p L ex") (auto simp: convert_example_def)
  have fit: "int (length tokens) \<le> L"
    by (rule encode_sequences_Inr[OF assms(2) assms(3) assms(4) r])
  have idlen: "length (tokens_to_ids tk tokens) = length tokens"
    using assms(2) by (simp add: one_id_per_token_def)
  note pf = pad_features_fits[OF assms(2) seglen fit, of p]
  have enc: "encode_sequences tk p L ex = pad_features tk p L (tokens, segs)"
    by (simp add: encode_sequences_def assms(3) assms(4))
  have hdnth: "segs ! 0 = hd segs" using ends by (simp add: hd_conv_nth)
  have lastnth: "segs ! (length tokens - 1) = last segs"
    using ends seglen by (simp add: last_conv_nth)
  have pos: "0 < length tokens" using ends by simp
  have nle: "length tokens \<le> nat L" using fit by linarith
  define n where "n = length tokens"
  define k where "k = nat L - length tokens"
  have rest: "nat L - n - k = 0" "nat L - n = k" by (simp_all add: n_def k_def)
  have lens: "length (tokens_to_ids tk tokens) = n" "length segs = n" "0 < n"
    using idlen seglen pos by (simp_all add: n_def)
  have core: "tokens \<noteq> [] \<and> length segs = length tokens \<and> int (length tokens) \<le> L
       \<and> (if cls_token_at_end p
          then last tokens = the (cls_token p) \<and> last segs = cls_token_segment_id p
          else hd tokens = the (cls_token p) \<and> hd segs = cls_token_segment_id p)"
    using ends seglen fit by simp
  have cls_seg: "(if cls_token_at_end p then segs ! (n - 1) else segs ! 0)
                   = cls_token_segment_id p"
    using ends hdnth lastnth by (simp add: n_def)
  show ?thesis
  proof (cases "pad_on_left p")
    case True
    then have f: "input_ids f = replicate k (hd (tokens_to_ids tk [pad_token p]))
                                  @ tokens_to_ids tk tokens"
         "input_mask f = replicate k (pad_mask_value p) @ replicate n (real_mask_value p)"
         "segment_ids f = replicate k (pad_token_segment_id p) @ segs"
      using assms(5) by (auto simp: convert_example_def enc pf n_def k_def split: sum.splits)
    have i1: "take n (drop k (input_ids f)) = tokens_to_ids tk tokens"
      unfolding f(1) using lens(1) by simp
    have i2: "take n (drop k (segment_ids f)) = segs"
      unfolding f(2) f(3) using lens(2) by simp
    have i3: "input_mask f = replicate k (pad_mask_value p) @ replicate n (real_mask_value p)
                 @ replicate (nat L - n - k) (pad_mask_value p)"
      unfolding f(2) rest by simp
    have nth: "segment_ids f ! (k + i) = segs ! i" for i
      unfolding f(3) by (simp add: nth_append)
    have "k + n - 1 = k + (n - 1)" using lens(3) by simp
    then have i4: "segment_ids f ! (if cls_token_at_end p then k + n - 1 else k)
                    = cls_token_segment_id p"
      using cls_seg nth[of "n - 1"] nth[of 0] by (simp split: if_splits)
    show ?thesis
      using core i1 i2 i3 i4 True
      unfolding Let_def n_def[symmetric] by (auto simp: rest split: if_splits)
  next
    case False
    then have f: "input_ids f = tokens_to_ids tk tokens
                                  @ replicate k (hd (tokens_to_ids tk [pad_token p]))"
         "input_mask f = replicate n (real_mask_value p) @ replicate k (pad_mask_value p)"
         "segment_ids f = segs @ replicate k (pad_token_segment_id p)"
      using assms(5) by (auto simp: convert_example_def enc pf n_def k_def split: sum.splits)
    have i1: "take n (drop 0 (input_ids f)) = tokens_to_ids tk tokens"
      unfolding f(1) using lens(1) by simp
    have i2: "take n (drop 0 (segment_ids f)) = segs"
      unfolding f(3) using lens(2) by simp
    have i3: "input_mask f = replicate 0 (pad_mask_value p) @ replicate n (real_mask_value p)
                 @ replicate (nat L - n - 0) (pad_mask_value p)"
      unfolding f(2) using rest by simp
    have nth: "i < n \<Longrightarrow> segment_ids f ! i = segs ! i" for i
      unfolding f(3) using lens(2) by (simp add: nth_append)
    have i4: "segment_ids f ! (if cls_token_at_end p then 0 + n - 1 else 0)
                    = cls_token_segment_id p"
      using cls_seg nth[of "n - 1"] nth[of 0] lens(3) by (simp split: if_splits)
    show ?thesis
      using core i1 i2 i3 i4 False
      unfolding Let_def n_def[symmetric] by (auto split: if_splits)
  qed
qed

theorem cls_token_placement_witness:
  "truthy (cls_token left_padded_params) \<and> one_id_per_token char_tokenizer
   \<and> truncate_tokens char_tokenizer left_padded_params 6 short_example
       = Inr ([''a'', ''b''], None)
   \<and> add_special_tokens left_padded_params [''a'', ''b''] None
       = ([''[CLS]'', ''a'', ''b'', ''[SEP]''], [2, 0, 0, 0])
   \<and> convert_example [''neg'', ''pos''] 6 char_tokenizer ''classification'' no_float
        left_padded_params short_example
      = Inr \<lparr> input_ids = [0, 0, 101, 1001, 1001, 102], input_mask = [0, 0, 1, 1, 1, 1],
              segment_ids = [0, 0, 2, 0, 0, 0], label_id = ClassIndex 1 \<rparr>
   \<and> hd [''[CLS]'', ''a'', ''b'', ''[SEP]''] = the (cls_token left_padded_params)
   \<and> [0, 0, 2, 0, 0, 0] ! (nat 6 - length [''[CLS]'', ''a'', ''b'', ''[SEP]''])
       = cls_token_segment_id left_padded_params"
proof -
  have h1: "truthy (cls_token left_padded_params)" by (simp add: run_defs)
  have h2: "one_id_per_token char_tokenizer" by (rule one_id_char_tokenizer)
  have h3: "truncate_tokens char_tokenizer left_padded_params 6 short_example
       = Inr ([''a'', ''b''], None)"
    by (simp add: run_defs)
  have h4: "add_special_tokens left_padded_params [''a'', ''b''] None
       = ([''[CLS]'', ''a'', ''b'', ''[SEP]''], [2, 0, 0, 0])"
    by (simp add: run_defs)
  have h5: "convert_example [''neg'', ''pos''] 6 char_tokenizer ''classification'' no_float
        left_padded_params short_example
      = Inr \<lparr> input_ids = [0, 0, 101, 1001, 1001, 102], input_mask = [0, 0, 1, 1, 1, 1],
              segment_ids = [0, 0, 2, 0, 0, 0], label_id = ClassIndex 1 \<rparr>"
    by (simp add: run_defs)
  have c: "\<not> cls_token_at_end left_padded_params" "pad_on_left left_padded_params"
    by (simp_all add: run_defs)
  from cls_token_placement[OF h1 h2 h3 h4 h5] c
  have "hd [''[CLS]'', ''a'', ''b'', ''[SEP]''] = the (cls_token left_padded_params)
      \<and> [0, 0, 2, 0, 0, 0] ! (nat 6 - length [''[CLS]'', ''a'', ''b'', ''[SEP]''])
       = cls_token_segment_id left_padded_params"
    by (simp add: Let_def)
  with h1 h2 h3 h4 h5 show ?thesis by blast
qed

text \<open>
  C4 as stated fails: with padding on the left, the first entries of the feature record are
  padding, not the classification token.
\<close>

theorem cls_token_placement_counterexample:
  "truthy (cls_token left_padded_params) \<and> \<not> cls_token_at_end left_padded_params
   \<and> convert_example [''neg'', ''pos''] 6 char_tokenizer ''classification'' no_float
        left_padded_params short_example
      = Inr \<lparr> input_ids = [0, 0, 101, 1001, 1001, 102], input_mask = [0, 0, 1, 1, 1, 1],
              segment_ids = [0, 0, 2, 0, 0, 0], label_id = ClassIndex 1 \<rparr>
   \<and> tokens_to_ids char_tokenizer [the (cls_token left_padded_params)] = [101]
   \<and> hd [0, 0, 101, 1001, 1001, 102 :: int] \<noteq> 101
   \<and> hd [0, 0, 2, 0, 0, 0 :: int] \<noteq> cls_token_segment_id left_padded_params"
  by (simp add: run_defs)

section \<open>Attention mask\<close>

text \<open>
  C6. When the assembled tokens of an example are at most \<open>L\<close>, steps 1 to 8 succeed and
  the mask holds the value of a real token exactly once for each assembled token, that is
  \<open>L\<close> minus the number of padding entries, and the value of padding everywhere else, on
  the side where the padding is.
\<close>

theorem input_mask_real_entries:
  assumes "one_id_per_token tk"
      and "truncate_tokens tk p L ex = Inr (a, b)"
      and "add_special_tokens p a b = (tokens, segs)"
      and "int (length tokens) \<le> L"
  shows "\<exists>ids msk segs'.
           encode_sequences tk p L ex = Inr (ids, msk, segs')
         \<and> msk = (if pad_on_left p
                  then replicate (nat L - length tokens) (pad_mask_value p)
                         @ replicate (length tokens) (real_mask_value p)
                  else replicate (length tokens) (real_mask_value p)
                         @ replicate (nat L - length tokens) (pad_mask_value p))
         \<and> count_list msk (real_mask_value p) = length tokens
         \<and> count_list msk (pad_mask_value p) = nat L - length tokens
         \<and> length tokens = nat L - (nat L - length tokens)
         \<and> length msk = nat L
         \<and> (\<forall>f. convert_example label_list L tk output_mode np_float32 p ex = Inr f
                \<longrightarrow> input_mask f = msk)"
proof -
  have segs: "length segs = length tokens"
    by (rule add_special_tokens_length[OF assms(3)])
  note pf = pad_features_fits[OF assms(1) segs assms(4), of p]
  have n: "length tokens \<le> nat L" using assms(4) by linarith
  have d: "real_mask_value p \<noteq> pad_mask_value p" by (rule real_pad_differ)
  have cnt: "count_list (replicate k x) y = (if x = y then k else 0)" for k and x y :: int
    by (induction k) auto
  show ?thesis
    using n d d[symmetric]
    by (cases "pad_on_left p")
       (auto simp: encode_sequences_def assms(2) assms(3) pf convert_example_def cnt
             split: sum.splits)
qed

theorem input_mask_real_entries_witness:
  "one_id_per_token char_tokenizer
   \<and> truncate_tokens char_tokenizer default_params 6 short_example = Inr ([''a'', ''b''], None)
   \<and> add_special_tokens default_params [''a'', ''b''] None
        = ([''[CLS]'', ''a'', ''b'', ''[SEP]''], [0, 0, 0, 0])
   \<and> int (length [''[CLS]'', ''a'', ''b'', ''[SEP]'']) \<le> 6
   \<and> (\<exists>ids segs'. encode_sequences char_tokenizer default_params 6 short_example
          = Inr (ids, [1, 1, 1, 1, 0, 0], segs'))"
proof -
  have h1: "one_id_per_token char_tokenizer" by (rule one_id_char_tokenizer)
  have h2: "truncate_tokens char_tokenizer default_params 6 short_example
              = Inr ([''a'', ''b''], None)"
    by (simp add: run_defs)
  have h3: "add_special_tokens default_params [''a'', ''b''] None
              = ([''[CLS]'', ''a'', ''b'', ''[SEP]''], [0, 0, 0, 0])"
    by (simp add: run_defs)
  have h4: "int (length [''[CLS]'', ''a'', ''b'', ''[SEP]'']) \<le> 6" by simp
  from input_mask_real_entries[OF h1 h2 h3 h4, of "[]" "''classification''" no_float]
  have "\<exists>ids segs'. encode_sequences char_tokenizer default_params 6 short_example
          = Inr (ids, [1, 1, 1, 1, 0, 0], segs')"
    by (simp add: default_params_def real_mask_value_def pad_mask_value_def
          numeral_eq_Suc)
  with h1 h2 h3 h4 show ?thesis by blast
qed

section \<open>Labels\<close>

lemma label_map_fold_notin:
  "lab \<notin> set ls \<Longrightarrow>
   fold (\<lambda>(i, l) m. m(l \<mapsto> i)) (enumerate n ls) m0 lab = m0 lab"
  by (induction ls arbitrary: n m0) auto

lemma label_map_fold_in:
  "lab \<in> set ls \<Longrightarrow>
   \<exists>i. fold (\<lambda>(i, l) m. m(l \<mapsto> i)) (enumerate n ls) m0 lab = Some (n + i)
      \<and> i < length ls \<and> ls ! i = lab \<and> (\<forall>j<length ls. ls ! j = lab \<longrightarrow> j \<le> i)"
proof (induction ls arbitrary: n m0)
  case Nil
  then show ?case by simp
next
  case (Cons x xs)
  let ?F = "\<lambda>(i, l) m. m(l \<mapsto> i)"
  have step: "fold ?F (enumerate n (x # xs)) m0 = fold ?F (enumerate (Suc n) xs) (m0(x \<mapsto> n))"
    by simp
  show ?case
  proof (cases "lab \<in> set xs")
    case True
    from Cons.IH[OF True, of "Suc n" "m0(x \<mapsto> n)"]
    obtain i where i: "fold ?F (enumerate (Suc n) xs) (m0(x \<mapsto> n)) lab = Some (Suc n + i)"
      "i < length xs" "xs ! i = lab" "\<forall>j<length xs. xs ! j = lab \<longrightarrow> j \<le> i"
      by blast
    have A: "fold ?F (enumerate n (x # xs)) m0 lab = Some (n + Suc i)"
      unfolding step using i(1) by (simp only: add_Suc_right add_Suc)
    have B: "Suc i < length (x # xs)" using i(2) by simp
    have C: "(x # xs) ! Suc i = lab" using i(3) by simp
    have D: "\<forall>j<length (x # xs). (x # xs) ! j = lab \<longrightarrow> j \<le> Suc i"
    proof (intro allI impI)
      fix j assume "j < length (x # xs)" "(x # xs) ! j = lab"
      then show "j \<le> Suc i" using i(4) by (cases j) auto
    qed
    show ?thesis using A B C D by blast
  next
    case False
    then have x: "x = lab" using Cons.prems by simp
    have "fold ?F (enumerate (Suc n) xs) (m0(x \<mapsto> n)) lab = (m0(x \<mapsto> n)) lab"
      by (rule label_map_fold_notin[OF False])
    then have A: "fold ?F (enumerate n (x # xs)) m0 lab = Some (n + 0)"
      unfolding step using x by simp
    have B: "0 < length (x # xs)" by simp
    have C: "(x # xs) ! 0 = lab" using x by simp
    have D: "\<forall>j<length (x # xs). (x # xs) ! j = lab \<longrightarrow> j \<le> 0"
    proof (intro allI impI)
      fix j assume "j < length (x # xs)" "(x # xs) ! j = lab"
      then show "j \<le> 0" using False by (cases j) auto
    qed
    show ?thesis using A B C D by blast
  qed
qed

lemma label_map_absent: "lab \<notin> set label_list \<Longrightarrow> label_map label_list lab = None"
  by (simp add: label_map_def label_map_fold_notin)

lemma label_map_present:
  "lab \<in> set label_list \<Longrightarrow>
   \<exists>i. label_map label_list lab = Some i \<and> i < length label_list \<and> label_list ! i = lab
      \<and> (\<forall>j<length label_list. label_list ! j = lab \<longrightarrow> j \<le> i)"
  using label_map_fold_in[of lab label_list 0 Map.empty] by (simp add: label_map_def)

text \<open>
  C7. In classification mode, for an example that passes steps 1 to 8 and whose label
  occurs in the label list, the feature record is emitted and its label id is an index of
  that label in the list: the last one, which is the only one when the labels are distinct.
  In particular the label \<open>pos\<close> has the id 1 in the list \<open>neg\<close>, \<open>pos\<close>.
\<close>

theorem classification_label_index:
  assumes "output_mode = ''classification''"
      and "encode_sequences tk p L ex = Inr (ids, msk, segs)"
      and "label ex \<in> set label_list"
  shows "\<exists>i. convert_example label_list L tk output_mode np_float32 p ex
               = Inr \<lparr> input_ids = ids, input_mask = msk, segment_ids = segs,
                       label_id = ClassIndex i \<rparr>
            \<and> i < length label_list \<and> label_list ! i = label ex
            \<and> (\<forall>j<length label_list. label_list ! j = label ex \<longrightarrow> j \<le> i)
            \<and> (distinct label_list \<longrightarrow>
                 (\<forall>j<length label_list. label_list ! j = label ex \<longrightarrow> j = i))
            \<and> resolve_label [''neg'', ''pos''] ''classification'' np_float32 ''pos''
                = Inr (ClassIndex 1)"
proof -
  from label_map_present[OF assms(3)] obtain i where
    i: "label_map label_list (label ex) = Some i" "i < length label_list"
       "label_list ! i = label ex"
       "\<forall>j<length label_list. label_list ! j = label ex \<longrightarrow> j \<le> i"
    by blast
  have conv: "convert_example label_list L tk output_mode np_float32 p ex
               = Inr \<lparr> input_ids = ids, input_mask = msk, segment_ids = segs,
                       label_id = ClassIndex i \<rparr>"
    by (simp add: convert_example_def assms(1) assms(2) resolve_label_def i(1))
  have uniq: "\<forall>j<length label_list. label_list ! j = label ex \<longrightarrow> j = i"
    if "distinct label_list"
    using that i(2) i(3) by (metis nth_eq_iff_index_eq)
  have particular: "resolve_label [''neg'', ''pos''] ''classification'' np_float32 ''pos''
                = Inr (ClassIndex 1)"
    by (simp add: resolve_label_def label_map_def)
  show ?thesis using conv i(2) i(3) i(4) uniq particular by blast
qed

theorem classification_label_index_witness:
  "''classification'' = ''classification''
   \<and> encode_sequences char_tokenizer default_params 6 short_example
        = Inr ([101, 1001, 1001, 102, 0, 0], [1, 1, 1, 1, 0, 0], [0, 0, 0, 0, 0, 0])
   \<and> label short_example \<in> set [''neg'', ''pos'']
   \<and> convert_example [''neg'', ''pos''] 6 char_tokenizer ''classification'' no_float
         default_params short_example
        = Inr \<lparr> input_ids = [101, 1001, 1001, 102, 0, 0], input_mask = [1, 1, 1, 1, 0, 0],
                segment_ids = [0, 0, 0, 0, 0, 0], label_id = ClassIndex 1 \<rparr>"
proof -
  have h2: "encode_sequences char_tokenizer default_params 6 short_example
        = Inr ([101, 1001, 1001, 102, 0, 0], [1, 1, 1, 1, 0, 0], [0, 0, 0, 0, 0, 0])"
    by (simp add: run_defs)
  have h3: "label short_example \<in> set [''neg'', ''pos'']"
    by (simp add: short_example_def)
  from classification_label_index[OF refl h2 h3, of no_float]
  obtain i where i: "convert_example [''neg'', ''pos''] 6 char_tokenizer ''classification''
        no_float default_params short_example
        = Inr \<lparr> input_ids = [101, 1001, 1001, 102, 0, 0], input_mask = [1, 1, 1, 1, 0, 0],
                segment_ids = [0, 0, 0, 0, 0, 0], label_id = ClassIndex i \<rparr>"
     "i < length [''neg'', ''pos'']" "[''neg'', ''pos''] ! i = label short_example"
    by blast
  have "i = 1" using i(2) i(3) by (cases i) (auto simp: short_example_def less_Suc_eq)
  then show ?thesis using i(1) h2 h3 by simp
qed

text \<open>
  The label step in general. In classification mode an example whose label is not in the
  label list is never encoded: a failure of steps 1 to 8 is raised as it is, and otherwise
  \<open>KeyError\<close> with the label. In the same way an output mode that is neither
  \<open>classification\<close> nor \<open>regression\<close> gives the failure of steps 1 to 8, and otherwise
  \<open>KeyError\<close> with the mode.
\<close>

theorem unknown_label_and_mode_fail:
  "(output_mode = ''classification'' \<and> label ex \<notin> set label_list \<longrightarrow>
      convert_example label_list L tk output_mode np_float32 p ex
        = (case encode_sequences tk p L ex of
             Inl e \<Rightarrow> Inl e
           | Inr r \<Rightarrow> Inl (KeyError (label ex))))
   \<and> (output_mode \<noteq> ''classification'' \<and> output_mode \<noteq> ''regression'' \<longrightarrow>
      convert_example label_list L tk output_mode np_float32 p ex
        = (case encode_sequences tk p L ex of
             Inl e \<Rightarrow> Inl e
           | Inr r \<Rightarrow> Inl (KeyError output_mode)))"
  by (auto simp: convert_example_def resolve_label_def label_map_absent split: sum.splits)

theorem unknown_label_and_mode_fail_witness:
  "label (short_example\<lparr>label := ''maybe''\<rparr>) \<notin> set [''neg'', ''pos'']
   \<and> convert_example [''neg'', ''pos''] 6 char_tokenizer ''classification'' no_float
        default_params (short_example\<lparr>label := ''maybe''\<rparr>) = Inl (KeyError ''maybe'')
   \<and> ''ranking'' \<noteq> ''classification'' \<and> ''ranking'' \<noteq> ''regression''
   \<and> convert_example [''neg'', ''pos''] 6 char_tokenizer ''ranking'' no_float
        default_params short_example = Inl (KeyError ''ranking'')"
proof -
  have e1: "encode_sequences char_tokenizer default_params 6 (short_example\<lparr>label := ''maybe''\<rparr>)
        = Inr ([101, 1001, 1001, 102, 0, 0], [1, 1, 1, 1, 0, 0], [0, 0, 0, 0, 0, 0])"
    by (simp add: run_defs)
  have e2: "encode_sequences char_tokenizer default_params 6 short_example
        = Inr ([101, 1001, 1001, 102, 0, 0], [1, 1, 1, 1, 0, 0], [0, 0, 0, 0, 0, 0])"
    by (simp add: run_defs)
  show ?thesis
    using unknown_label_and_mode_fail[of "''classification''" "short_example\<lparr>label := ''maybe''\<rparr>"
            "[''neg'', ''pos'']" 6 char_tokenizer no_float default_params]
          unknown_label_and_mode_fail[of "''ranking''" short_example
            "[''neg'', ''pos'']" 6 char_tokenizer no_float default_params]
    by (simp add: e1 e2)
qed

text \<open>
  C8. A run in which an unknown label does not give the key-lookup failure: the default
  parameters, a maximal length of 4, one text of four tokens and a label that is not in the
  label list. The one-text branch reserves no slot for \<open>cls_token\<close>, the assembled sequence
  has 5 entries, and the length validation raises \<open>ValueError\<close> before the label is looked
  up; so does an unsupported output mode on the same text. With a maximal length of 6 the
  same example passes the validation and gives \<open>KeyError\<close> with the label, or with the mode.
\<close>

theorem unknown_label_length_violation:
  "label unlabelled_example \<notin> set [''neg'', ''pos'']
   \<and> convert_example [''neg'', ''pos''] 4 char_tokenizer ''classification'' no_float
        default_params unlabelled_example
       = Inl (ValueError ''input_ids must be of length max_seq_length'')
   \<and> convert_example [''neg'', ''pos''] 4 char_tokenizer ''ranking'' no_float
        default_params unlabelled_example
       = Inl (ValueError ''input_ids must be of length max_seq_length'')
   \<and> convert_example [''neg'', ''pos''] 6 char_tokenizer ''classification'' no_float
        default_params unlabelled_example
       = Inl (KeyError ''maybe'')
   \<and> convert_example [''neg'', ''pos''] 6 char_tokenizer ''ranking'' no_float
        default_params unlabelled_example
       = Inl (KeyError ''ranking'')"
  by (simp add: run_defs)

section \<open>The batch\<close>

lemma convert_loop_first_failure:
  "\<exists>x\<in>set exs. \<exists>e. convert_example label_list L tk output_mode np_float32 p x = Inl e \<Longrightarrow>
   \<exists>pre x post e'. exs = pre @ x # post
      \<and> (\<forall>y\<in>set pre. \<exists>f. convert_example label_list L tk output_mode np_float32 p y = Inr f)
      \<and> convert_example label_list L tk output_mode np_float32 p x = Inl e'
      \<and> convert_loop label_list L tk output_mode np_float32 p exs features = Inl e'"
proof (induction exs arbitrary: features)
  case Nil
  then show ?case by simp
next
  case (Cons y ys)
  show ?case
  proof (cases "convert_example label_list L tk output_mode np_float32 p y")
    case (Inl e)
    then have "convert_loop label_list L tk output_mode np_float32 p (y # ys) features = Inl e"
      by simp
    with Inl show ?thesis by (intro exI[of _ "[]"] exI[of _ y] exI[of _ ys] exI[of _ e]) simp
  next
    case (Inr f)
    then have "\<exists>x\<in>set ys. \<exists>e. convert_example label_list L tk output_mode np_float32 p x = Inl e"
      using Cons.prems by auto
    from Cons.IH[OF this, of "features @ [f]"] obtain pre x post e' where
      r: "ys = pre @ x # post"
         "\<forall>y\<in>set pre. \<exists>f. convert_example label_list L tk output_mode np_float32 p y = Inr f"
         "convert_example label_list L tk output_mode np_float32 p x = Inl e'"
         "convert_loop label_list L tk output_mode np_float32 p ys (features @ [f]) = Inl e'"
      by blast
    have "convert_loop label_list L tk output_mode np_float32 p (y # ys) features = Inl e'"
      using Inr r(4) by simp
    moreover have "y # ys = (y # pre) @ x # post" using r(1) by simp
    moreover have "\<forall>z\<in>set (y # pre). \<exists>f. convert_example label_list L tk output_mode np_float32 p z = Inr f"
      using Inr r(2) by simp
    ultimately show ?thesis using r(3) by blast
  qed
qed

text \<open>
  C10. When the encoding of some example of the batch fails, the batch encoder returns no
  feature list: its result is the failure of the first example that fails, and the records
  of the examples before it are lost.
\<close>

theorem batch_all_or_nothing:
  assumes "ex \<in> set examples"
      and "convert_example label_list L tk output_mode np_float32 p ex = Inl e"
  shows "\<exists>pre x post e'. examples = pre @ x # post
      \<and> (\<forall>y\<in>set pre. \<exists>f. convert_example label_list L tk output_mode np_float32 p y = Inr f)
      \<and> convert_example label_list L tk output_mode np_float32 p x = Inl e'
      \<and> convert_examples_to_features examples label_list L tk output_mode np_float32 p = Inl e'"
  unfolding convert_examples_to_features_def
  using convert_loop_first_failure[of examples label_list L tk output_mode np_float32 p "[]"] assms
  by blast

theorem batch_all_or_nothing_witness:
  "unlabelled_example \<in> set [short_example, unlabelled_example]
   \<and> convert_example [''neg'', ''pos''] 6 char_tokenizer ''classification'' no_float
         default_params unlabelled_example = Inl (KeyError ''maybe'')
   \<and> (\<exists>pre x post e'. [short_example, unlabelled_example] = pre @ x # post
      \<and> (\<forall>y\<in>set pre. \<exists>f. convert_example [''neg'', ''pos''] 6 char_tokenizer
              ''classification'' no_float default_params y = Inr f)
      \<and> convert_example [''neg'', ''pos''] 6 char_tokenizer ''classification'' no_float
           default_params x = Inl e'
      \<and> convert_examples_to_features [short_example, unlabelled_example] [''neg'', ''pos'']
           6 char_tokenizer ''classification'' no_float default_params = Inl e')
   \<and> convert_examples_to_features [short_example, unlabelled_example] [''neg'', ''pos'']
           6 char_tokenizer ''classification'' no_float default_params
        = Inl (KeyError ''maybe'')"
proof -
  have h1: "unlabelled_example \<in> set [short_example, unlabelled_example]" by simp
  have h2: "convert_example [''neg'', ''pos''] 6 char_tokenizer ''classification'' no_float
         default_params unlabelled_example = Inl (KeyError ''maybe'')"
    by (simp add: run_defs)
  have h3: "convert_examples_to_features [short_example, unlabelled_example] [''neg'', ''pos'']
           6 char_tokenizer ''classification'' no_float default_params
        = Inl (KeyError ''maybe'')"
    by (simp add: run_defs)
  show ?thesis using batch_all_or_nothing[OF h1 h2] h1 h2 h3 by blast
qed

end
